theory Spec2Isabelle
  imports Main
begin

section \<open>The cross-product pipeline of \<open>aten/src/ATen/native/Cross.cpp\<close>\<close>

subsection \<open>Data model\<close>

text \<open>
  A tensor is seen through what \<open>Cross.cpp\<close> reads of it: its extents (\<open>sizes()\<close>, a
  list of \<open>int64_t\<close>), its device tag (\<open>device().type()\<close>) and its logical contents in
  row-major order. Extents are far from the 64-bit bounds, so they are mathematical
  integers.
\<close>

datatype DeviceType = CPU | CUDA

record 'a Tensor =
  sizes :: "int list"
  device :: DeviceType
  elems :: "'a list"

text \<open>
  Every \<open>TORCH_CHECK\<close> and every throwing helper is a branch that returns an error. The
  names are those of the specification's error taxonomy; \<open>AxisOutOfRange\<close> is the
  failure of \<open>maybe_wrap_dim\<close>.
\<close>

datatype error =
    NoSuitableAxis
  | IncompatibleShapes
  | AxisOutOfRange
  | AxisExtentMismatch
  | UnsupportedDevice

text \<open>
  The calls that leave \<open>linalg_cross_out\<close> are recorded in a log: an \<open>expand\<close> of a
  tensor to a shape, the warning of \<open>resize_output\<close>, and the call of \<open>cross_stub\<close>
  with its device tag, its two inputs and the axis. The caller's output tensor and the
  log form the state that the functions thread.
\<close>

datatype 'a event =
    Expand "'a Tensor" "int list"
  | DiscardWarning
  | Dispatch DeviceType "'a Tensor" "'a Tensor" int

record 'a world =
  out_t :: "'a Tensor"
  log :: "'a event list"

definition dim :: "'a Tensor \<Rightarrow> int" where
  "dim t = int (length (sizes t))"

definition numel :: "'a Tensor \<Rightarrow> int" where
  "numel t = prod_list (sizes t)"

subsection \<open>\<open>_default_cross_dim\<close>\<close>

text \<open>
  The loop \<open>for(auto i : c10::irange(sizes.size()))\<close> with its early return, as a scan
  that carries the index; falling out of the loop reaches \<open>TORCH_CHECK(false, ...)\<close>.
\<close>

fun scan_sizes :: "nat \<Rightarrow> int list \<Rightarrow> error + int" where
  "scan_sizes i [] = Inl NoSuitableAxis"
| "scan_sizes i (s # ss) = (if s = 3 then Inr (int i) else scan_sizes (Suc i) ss)"

definition default_cross_dim :: "int option \<Rightarrow> int list \<Rightarrow> error + int" where
  "default_cross_dim dimension szs =
     (case dimension of
        Some d \<Rightarrow> Inr d
      | None \<Rightarrow> scan_sizes 0 szs)"

subsection \<open>Helpers that \<open>Cross.cpp\<close> calls\<close>

text \<open>
  Modelled from the spec: \<open>maybe_wrap_dim\<close> (\<open>c10/core/WrapDimMinimal.h\<close> is not among
  the sources). Section 3: the valid range of an axis is the array's rank, a negative
  value wraps to \<open>axis + rank\<close>, and after resolution \<open>0 \<le> axis < rank\<close>.
\<close>

definition maybe_wrap_dim :: "int \<Rightarrow> int \<Rightarrow> error + int" where
  "maybe_wrap_dim d rank =
     (if - rank \<le> d \<and> d < rank
      then Inr (if d < 0 then d + rank else d)
      else Inl AxisOutOfRange)"

text \<open>
  Modelled from the spec: \<open>Tensor::size(dim)\<close> (not among the sources). Section 3: the
  axis is resolved against the rank of the tensor it indexes, and the result is the
  extent there.
\<close>

definition size_at :: "'a Tensor \<Rightarrow> int \<Rightarrow> error + int" where
  "size_at t d =
     (case maybe_wrap_dim d (dim t) of
        Inl e \<Rightarrow> Inl e
      | Inr k \<Rightarrow> Inr (sizes t ! nat k))"

text \<open>
  Modelled from the spec: \<open>infer_size\<close> (\<open>ATen/ExpandUtils.cpp\<close> is not among the
  sources). Section 4.2: right-align the two shapes, padding the shorter with leading
  ones; at each aligned position the output extent is \<open>max a b\<close> if
  \<open>a = b \<or> a = 1 \<or> b = 1\<close>, otherwise the call fails with \<open>IncompatibleShapes\<close>.
\<close>

definition pad_left :: "nat \<Rightarrow> int list \<Rightarrow> int list" where
  "pad_left n xs = replicate (n - length xs) 1 @ xs"

fun infer_aligned :: "int list \<Rightarrow> int list \<Rightarrow> error + int list" where
  "infer_aligned (a # as) (b # bs) =
     (if a = b \<or> a = 1 \<or> b = 1
      then (case infer_aligned as bs of
              Inl e \<Rightarrow> Inl e
            | Inr r \<Rightarrow> Inr (max a b # r))
      else Inl IncompatibleShapes)"
| "infer_aligned _ _ = Inr []"

definition infer_size :: "int list \<Rightarrow> int list \<Rightarrow> error + int list" where
  "infer_size a b =
     (let n = max (length a) (length b)
      in infer_aligned (pad_left n a) (pad_left n b))"

text \<open>
  Modelled from the spec: \<open>Tensor::expand\<close> (not among the sources). Sections 4.2 and 6:
  a view whose logical shape is the target shape. Its contents repeat the source along
  every new leading dimension and along every stretched dimension of extent 1.
  \<open>linalg_cross_out\<close> calls it with the shape that \<open>infer_size\<close> returned, for which it
  does not fail.
\<close>

fun expand_elems :: "int list \<Rightarrow> int list \<Rightarrow> 'a list \<Rightarrow> 'a list" where
  "expand_elems ss [] xs = xs"
| "expand_elems ss (t # ts) xs =
     (if length ss < Suc (length ts)
      then concat (replicate (nat t) (expand_elems ss ts xs))
      else (case ss of
              [] \<Rightarrow> xs
            | s # ss' \<Rightarrow>
                if s = t
                then concat (map (\<lambda>i. expand_elems ss' ts
                                      (take (nat (prod_list ss')) (drop (i * nat (prod_list ss')) xs)))
                                 [0..<nat s])
                else concat (replicate (nat t) (expand_elems ss' ts xs))))"

definition expand :: "'a Tensor \<Rightarrow> int list \<Rightarrow> 'a Tensor" where
  "expand t shape = t\<lparr>sizes := shape, elems := expand_elems (sizes t) shape (elems t)\<rparr>"

text \<open>
  Modelled from the spec: \<open>at::native::resize_output\<close> (\<open>ATen/native/Resize.cpp\<close> is not
  among the sources). Section 4.3: a no-op when the shape is already the target;
  otherwise the output takes the target shape, and a warning is emitted if it had one or
  more elements. The old contents are discarded: the fresh storage is shown zero-filled
  until the kernel writes it.
\<close>

definition resize_output :: "('a::zero) world \<Rightarrow> int list \<Rightarrow> 'a world" where
  "resize_output w shape =
     (if sizes (out_t w) = shape then w
      else w\<lparr>out_t := (out_t w)\<lparr>sizes := shape,
                               elems := replicate (nat (prod_list shape)) 0\<rparr>,
             log := log w @ (if numel (out_t w) \<noteq> 0 then [DiscardWarning] else [])\<rparr>)"

text \<open>
  Modelled from the spec: the dispatch stub declared by \<open>DEFINE_DISPATCH(cross_stub)\<close>
  (\<open>ATen/native/DispatchStub.h\<close> and the per-device kernels are not among the sources).
  Section 4.4: the table maps a device tag to a kernel; \<open>invoke\<close> looks the tag up, fails
  with \<open>UnsupportedDevice\<close> if nothing is registered, and otherwise calls the kernel. A
  kernel computes the elements that are written into the prepared output.
\<close>

type_synonym 'a kernel = "'a Tensor \<Rightarrow> 'a Tensor \<Rightarrow> int \<Rightarrow> 'a list"

definition cross_stub ::
  "(DeviceType \<Rightarrow> 'a kernel option) \<Rightarrow> DeviceType \<Rightarrow> 'a world \<Rightarrow> 'a Tensor \<Rightarrow> 'a Tensor \<Rightarrow> int
     \<Rightarrow> (error + unit) \<times> 'a world" where
  "cross_stub tbl dev w a b d =
     (let w' = w\<lparr>log := log w @ [Dispatch dev a b d]\<rparr>
      in case tbl dev of
           None \<Rightarrow> (Inl UnsupportedDevice, w')
         | Some k \<Rightarrow> (Inr (), w'\<lparr>out_t := (out_t w')\<lparr>elems := k a b d\<rparr>\<rparr>))"

text \<open>
  Modelled from the spec: the cross-product kernel (\<open>ATen/native/cpu/CrossKernel.cpp\<close> and
  its accelerator sibling are not among the sources). Section 4.5: the two inputs have the
  same shape and extent 3 at the axis; with \<open>(a0, a1, a2)\<close> and \<open>(b0, b1, b2)\<close> the
  elements along the axis, \<open>out0 = a1*b2 - a2*b1\<close>, \<open>out1 = a2*b0 - a0*b2\<close>,
  \<open>out2 = a0*b1 - a1*b0\<close>. In row-major order the axis has stride
  \<open>prod_list (drop (d + 1) sizes)\<close>.
\<close>

definition cross_at :: "('a::comm_ring) list \<Rightarrow> 'a list \<Rightarrow> nat \<Rightarrow> nat \<Rightarrow> 'a" where
  "cross_at xs ys stride p =
     (let c = (p div stride) mod 3;
          base = p - c * stride;
          a0 = xs ! base; a1 = xs ! (base + stride); a2 = xs ! (base + 2 * stride);
          b0 = ys ! base; b1 = ys ! (base + stride); b2 = ys ! (base + 2 * stride)
      in if c = 0 then a1 * b2 - a2 * b1
         else if c = 1 then a2 * b0 - a0 * b2
         else a0 * b1 - a1 * b0)"

definition cross_kernel :: "('a::comm_ring) kernel" where
  "cross_kernel a b d =
     (let stride = nat (prod_list (drop (Suc (nat d)) (sizes a)))
      in map (cross_at (elems a) (elems b) stride) [0..<nat (prod_list (sizes a))])"

text \<open>A table in which every device tag is registered with that kernel.\<close>

definition cross_table :: "DeviceType \<Rightarrow> ('a::comm_ring) kernel option" where
  "cross_table dev = Some cross_kernel"

subsection \<open>\<open>linalg_cross_out\<close>, \<open>linalg_cross\<close>, \<open>cross\<close>, \<open>cross_out\<close>\<close>

text \<open>
  The body of \<open>linalg_cross_out\<close> in the order of the source: the device tag of
  \<open>input\<close>, \<open>infer_size\<close>, the two conditional \<open>expand\<close> calls,
  \<open>maybe_wrap_dim(dimension, input.dim())\<close>, the check that
  \<open>input_broadcasted.size(dim)\<close> is 3, \<open>resize_output\<close>, and the stub. A throw leaves
  the state as it was at that point.
\<close>

definition broadcast_to :: "'a Tensor \<Rightarrow> int list \<Rightarrow> 'a world \<Rightarrow> 'a Tensor \<times> 'a world" where
  "broadcast_to t out_size w =
     (if sizes t \<noteq> out_size
      then (expand t out_size, w\<lparr>log := log w @ [Expand t out_size]\<rparr>)
      else (t, w))"

definition linalg_cross_out ::
  "(DeviceType \<Rightarrow> ('a::zero) kernel option) \<Rightarrow> 'a Tensor \<Rightarrow> 'a Tensor \<Rightarrow> int \<Rightarrow> 'a world
     \<Rightarrow> (error + unit) \<times> 'a world" where
  "linalg_cross_out tbl input other dimension w =
     (let device1 = device input in
      case infer_size (sizes input) (sizes other) of
        Inl e \<Rightarrow> (Inl e, w)
      | Inr out_size \<Rightarrow>
          (case broadcast_to input out_size w of (input_broadcasted, w1) \<Rightarrow>
           case broadcast_to other out_size w1 of (other_broadcasted, w2) \<Rightarrow>
           case maybe_wrap_dim dimension (dim input) of
             Inl e \<Rightarrow> (Inl e, w2)
           | Inr d \<Rightarrow>
               (case size_at input_broadcasted d of
                  Inl e \<Rightarrow> (Inl e, w2)
                | Inr n \<Rightarrow>
                    if n \<noteq> 3 then (Inl AxisExtentMismatch, w2)
                    else cross_stub tbl device1 (resize_output w2 out_size)
                           input_broadcasted other_broadcasted d)))"

text \<open>
  Modelled from the spec: \<open>at::empty({0}, input.options())\<close> (not among the sources).
  Section 4.6: a fresh empty output, here one dimension of extent 0 on the input's device.
\<close>

definition empty0 :: "'a Tensor \<Rightarrow> 'a Tensor" where
  "empty0 input = \<lparr>sizes = [0], device = device input, elems = []\<rparr>"

definition linalg_cross ::
  "(DeviceType \<Rightarrow> ('a::zero) kernel option) \<Rightarrow> 'a Tensor \<Rightarrow> 'a Tensor \<Rightarrow> int \<Rightarrow> 'a event list
     \<Rightarrow> (error + 'a Tensor) \<times> 'a event list" where
  "linalg_cross tbl input other dimension lg =
     (case linalg_cross_out tbl input other dimension \<lparr>out_t = empty0 input, log = lg\<rparr> of
        (Inl e, w) \<Rightarrow> (Inl e, log w)
      | (Inr u, w) \<Rightarrow> (Inr (out_t w), log w))"

definition cross ::
  "(DeviceType \<Rightarrow> ('a::zero) kernel option) \<Rightarrow> 'a Tensor \<Rightarrow> 'a Tensor \<Rightarrow> int option
     \<Rightarrow> 'a event list \<Rightarrow> (error + 'a Tensor) \<times> 'a event list" where
  "cross tbl input other dimension lg =
     (case default_cross_dim dimension (sizes input) of
        Inl e \<Rightarrow> (Inl e, lg)
      | Inr d \<Rightarrow> linalg_cross tbl input other d lg)"

definition cross_out ::
  "(DeviceType \<Rightarrow> ('a::zero) kernel option) \<Rightarrow> 'a Tensor \<Rightarrow> 'a Tensor \<Rightarrow> int option
     \<Rightarrow> 'a world \<Rightarrow> (error + unit) \<times> 'a world" where
  "cross_out tbl input other dimension w =
     (case default_cross_dim dimension (sizes input) of
        Inl e \<Rightarrow> (Inl e, w)
      | Inr d \<Rightarrow> linalg_cross_out tbl input other d w)"

subsection \<open>Broadcast compatibility, in the specification's words\<close>

text \<open>
  Section 3 of the specification: two shapes are broadcast-compatible iff, after
  right-aligning and treating missing leading dimensions as extent 1, every paired extent
  is equal or one of the pair is 1.
\<close>

definition broadcast_compatible :: "int list \<Rightarrow> int list \<Rightarrow> bool" where
  "broadcast_compatible a b =
     (let n = max (length a) (length b)
      in list_all (\<lambda>(x, y). x = y \<or> x = 1 \<or> y = 1) (zip (pad_left n a) (pad_left n b)))"

subsection \<open>Example inputs\<close>

text \<open>Small integer tensors on which the theorems below are run.\<close>

definition vec3 :: "int Tensor" where
  "vec3 = \<lparr>sizes = [3], device = CPU, elems = [1, 0, 0]\<rparr>"

definition mat23 :: "int Tensor" where
  "mat23 = \<lparr>sizes = [2, 3], device = CPU, elems = [0, 1, 0, 0, 0, 1]\<rparr>"

definition mat33 :: "int Tensor" where
  "mat33 = \<lparr>sizes = [3, 3], device = CPU, elems = [0, 1, 0, 0, 0, 0, 0, 0, 0]\<rparr>"

definition mat43 :: "int Tensor" where
  "mat43 = \<lparr>sizes = [4, 3], device = CPU, elems = [1, 0, 0, 0, 1, 0, 0, 0, 1, 1, 1, 1]\<rparr>"

definition vec1 :: "int Tensor" where
  "vec1 = \<lparr>sizes = [1], device = CPU, elems = [2]\<rparr>"

definition mat34 :: "int Tensor" where
  "mat34 = \<lparr>sizes = [3, 4], device = CPU, elems = [1, 0, 0, 2, 0, 1, 0, 3, 0, 0, 1, 4]\<rparr>"

definition ten343 :: "int Tensor" where
  "ten343 = \<lparr>sizes = [3, 4, 3], device = CPU,
             elems = [1, 0, 0, 0, 1, 0, 0, 0, 1, 1, 1, 1,
                      0, 1, 0, 0, 0, 1, 1, 0, 0, 2, 2, 2,
                      0, 0, 1, 1, 0, 0, 0, 1, 0, 3, 3, 3]\<rparr>"

definition used_out :: "int world" where
  "used_out = \<lparr>out_t = \<lparr>sizes = [1], device = CPU, elems = [9]\<rparr>, log = []\<rparr>"

definition cpu_only :: "DeviceType \<Rightarrow> int kernel option" where
  "cpu_only dev = (if dev = CPU then Some cross_kernel else None)"

section \<open>Properties\<close>

subsection \<open>Axis resolution\<close>

lemma scan_sizes_first:
  "i < length szs \<Longrightarrow> szs ! i = 3 \<Longrightarrow> (\<forall>k<i. szs ! k \<noteq> 3)
     \<Longrightarrow> scan_sizes n szs = Inr (int (n + i))"
proof (induction szs arbitrary: n i)
  case Nil
  then show ?case by simp
next
  case (Cons s ss)
  show ?case
  proof (cases i)
    case 0
    with Cons.prems show ?thesis by simp
  next
    case (Suc j)
    from Cons.prems Suc have hd: "s \<noteq> 3" by auto
    from Cons.prems Suc have "j < length ss" "ss ! j = 3" "\<forall>k<j. ss ! k \<noteq> 3" by auto
    then have "scan_sizes (Suc n) ss = Inr (int (Suc n + j))" by (rule Cons.IH)
    with hd Suc show ?thesis by simp
  qed
qed

lemma scan_sizes_none: "3 \<notin> set szs \<Longrightarrow> scan_sizes n szs = Inl NoSuitableAxis"
  by (induction szs arbitrary: n) auto

lemma scan_sizes_some: "3 \<in> set szs \<Longrightarrow> \<exists>k. scan_sizes n szs = Inr k"
  by (induction szs arbitrary: n) auto

text \<open>
  Claim C2. With an explicit axis \<open>_default_cross_dim\<close> returns it as it is, without
  wrapping or validation. Without one it returns the index of the first dimension of
  extent 3: the index \<open>i\<close> such that the extent at \<open>i\<close> is 3 and no earlier extent is;
  in particular, when a further dimension \<open>j > i\<close> has extent 3 too, the result is \<open>i\<close>.
\<close>

theorem default_cross_dim_first_match:
  "default_cross_dim (Some d) szs = Inr d \<and>
   (i < length szs \<and> szs ! i = 3 \<and> (\<forall>k<i. szs ! k \<noteq> 3)
      \<longrightarrow> default_cross_dim None szs = Inr (int i)) \<and>
   (i < j \<and> j < length szs \<and> szs ! i = 3 \<and> szs ! j = 3 \<and> (\<forall>k<i. szs ! k \<noteq> 3)
      \<longrightarrow> default_cross_dim None szs = Inr (int i))"
  using scan_sizes_first [of i szs 0] by (simp add: default_cross_dim_def)

theorem default_cross_dim_first_match_witness:
  "default_cross_dim (Some (- 7)) [2, 3, 5, 3] = Inr (- 7) \<and>
   (1::nat) < 3 \<and> 3 < length [2, 3, 5, 3 :: int] \<and> [2, 3, 5, 3 :: int] ! 1 = 3 \<and>
   [2, 3, 5, 3 :: int] ! 3 = 3 \<and> [2, 3, 5, 3 :: int] ! 0 \<noteq> 3 \<and>
   default_cross_dim None [2, 3, 5, 3] = Inr 1"
  using default_cross_dim_first_match [of "- 7" "[2, 3, 5, 3]" 1 3] by simp

lemma default_cross_dim_Inl:
  "default_cross_dim dimension szs = Inl e \<longleftrightarrow> e = NoSuitableAxis \<and> dimension = None \<and> 3 \<notin> set szs"
proof (cases dimension)
  case None
  show ?thesis
  proof (cases "3 \<in> set szs")
    case True
    with scan_sizes_some [of szs 0] None show ?thesis by (auto simp: default_cross_dim_def)
  next
    case False
    with scan_sizes_none [of szs 0] None show ?thesis by (auto simp: default_cross_dim_def)
  qed
next
  case (Some d)
  then show ?thesis by (simp add: default_cross_dim_def)
qed

text \<open>
  Claim C3. \<open>_default_cross_dim\<close> fails, and then with \<open>NoSuitableAxis\<close>, exactly when
  no explicit axis is given and no dimension has extent 3. \<open>cross\<close> and \<open>cross_out\<close>
  then fail with the same error and do nothing else: the log and the output are as
  before.
\<close>

theorem no_suitable_axis_fatal:
  "(default_cross_dim dimension szs = Inl NoSuitableAxis \<longleftrightarrow> dimension = None \<and> 3 \<notin> set szs) \<and>
   (isl (default_cross_dim dimension szs) \<longleftrightarrow> dimension = None \<and> 3 \<notin> set szs) \<and>
   (dimension = None \<and> 3 \<notin> set (sizes input)
      \<longrightarrow> cross tbl input other dimension lg = (Inl NoSuitableAxis, lg) \<and>
          cross_out tbl input other dimension w = (Inl NoSuitableAxis, w))"
proof -
  have a: "default_cross_dim dimension szs = Inl NoSuitableAxis \<longleftrightarrow> dimension = None \<and> 3 \<notin> set szs"
    by (simp add: default_cross_dim_Inl)
  have b: "isl (default_cross_dim dimension szs) \<longleftrightarrow> dimension = None \<and> 3 \<notin> set szs"
    using default_cross_dim_Inl [of dimension szs] by (cases "default_cross_dim dimension szs") auto
  have c: "dimension = None \<and> 3 \<notin> set (sizes input)
      \<longrightarrow> cross tbl input other dimension lg = (Inl NoSuitableAxis, lg) \<and>
          cross_out tbl input other dimension w = (Inl NoSuitableAxis, w)"
    using default_cross_dim_Inl [of dimension "sizes input" NoSuitableAxis]
    by (auto simp: cross_def cross_out_def)
  from a b c show ?thesis by blast
qed

theorem no_suitable_axis_fatal_witness:
  "default_cross_dim None [2, 4] = Inl NoSuitableAxis \<and>
   isl (default_cross_dim None [2, 4]) \<and>
   (3::int) \<notin> set [2, 4] \<and>
   cross cross_table \<lparr>sizes = [2, 4], device = CPU, elems = [1, 2, 3, 4, 5, 6, 7, 8 :: int]\<rparr>
     \<lparr>sizes = [2, 4], device = CPU, elems = [1, 2, 3, 4, 5, 6, 7, 8]\<rparr> None []
     = (Inl NoSuitableAxis, []) \<and>
   cross_out cross_table \<lparr>sizes = [2, 4], device = CPU, elems = [1, 2, 3, 4, 5, 6, 7, 8 :: int]\<rparr>
     \<lparr>sizes = [2, 4], device = CPU, elems = [1, 2, 3, 4, 5, 6, 7, 8]\<rparr> None
     \<lparr>out_t = \<lparr>sizes = [1], device = CPU, elems = [9]\<rparr>, log = []\<rparr>
     = (Inl NoSuitableAxis, \<lparr>out_t = \<lparr>sizes = [1], device = CPU, elems = [9]\<rparr>, log = []\<rparr>)"
  using no_suitable_axis_fatal [of None "[2, 4]"
      "\<lparr>sizes = [2, 4], device = CPU, elems = [1, 2, 3, 4, 5, 6, 7, 8 :: int]\<rparr>" cross_table
      "\<lparr>sizes = [2, 4], device = CPU, elems = [1, 2, 3, 4, 5, 6, 7, 8]\<rparr>" "[]"
      "\<lparr>out_t = \<lparr>sizes = [1], device = CPU, elems = [9]\<rparr>, log = []\<rparr>"]
  by simp

subsection \<open>Broadcast shape inference\<close>

lemma infer_aligned_Inr:
  "length as = length bs \<Longrightarrow> infer_aligned as bs = Inr r \<Longrightarrow>
     length r = length as \<and>
     (\<forall>k<length as. r ! k = max (as ! k) (bs ! k) \<and> (as ! k = bs ! k \<or> as ! k = 1 \<or> bs ! k = 1))"
proof (induction as bs arbitrary: r rule: list_induct2)
  case Nil
  then show ?case by simp
next
  case (Cons a as b bs)
  from Cons.prems obtain r' where r': "infer_aligned as bs = Inr r'" and r: "r = max a b # r'"
    and hd: "a = b \<or> a = 1 \<or> b = 1"
    by (auto split: if_splits sum.splits)
  from Cons.IH [OF r'] have len: "length r' = length as"
    and ih: "\<forall>k<length as. r' ! k = max (as ! k) (bs ! k) \<and> (as ! k = bs ! k \<or> as ! k = 1 \<or> bs ! k = 1)"
    by auto
  show ?case
  proof (intro conjI allI impI)
    show "length r = length (a # as)" using r len by simp
  next
    fix k assume "k < length (a # as)"
    then show "r ! k = max ((a # as) ! k) ((b # bs) ! k)" using r ih by (cases k) auto
  next
    fix k assume "k < length (a # as)"
    then show "(a # as) ! k = (b # bs) ! k \<or> (a # as) ! k = 1 \<or> (b # bs) ! k = 1"
      using hd ih by (cases k) auto
  qed
qed

lemma infer_aligned_Inl: "infer_aligned as bs = Inl e \<Longrightarrow> e = IncompatibleShapes"
  by (induction as bs rule: infer_aligned.induct) (auto split: if_splits sum.splits)

lemma infer_aligned_compatible:
  "length as = length bs \<Longrightarrow>
     (\<exists>r. infer_aligned as bs = Inr r) \<longleftrightarrow> list_all (\<lambda>(x, y). x = y \<or> x = 1 \<or> y = 1) (zip as bs)"
  by (induction as bs rule: list_induct2) (auto split: sum.splits)

lemma length_pad_left: "length xs \<le> n \<Longrightarrow> length (pad_left n xs) = n"
  by (simp add: pad_left_def)

lemma infer_size_compatible:
  "(\<exists>r. infer_size a b = Inr r) \<longleftrightarrow> broadcast_compatible a b"
  by (simp add: infer_size_def broadcast_compatible_def Let_def infer_aligned_compatible length_pad_left)

lemma infer_size_Inl: "infer_size a b = Inl e \<Longrightarrow> e = IncompatibleShapes"
  by (auto simp: infer_size_def Let_def dest: infer_aligned_Inl)

lemma infer_size_Inr:
  assumes "infer_size a b = Inr r"
  shows "length r = max (length a) (length b)"
    and "k < length r \<Longrightarrow> r ! k = max (pad_left (length r) a ! k) (pad_left (length r) b ! k)"
    and "k < length r \<Longrightarrow> pad_left (length r) a ! k = pad_left (length r) b ! k
           \<or> pad_left (length r) a ! k = 1 \<or> pad_left (length r) b ! k = 1"
proof -
  let ?n = "max (length a) (length b)"
  have eq: "length (pad_left ?n a) = length (pad_left ?n b)" by (simp add: length_pad_left)
  from assms have "infer_aligned (pad_left ?n a) (pad_left ?n b) = Inr r"
    by (simp add: infer_size_def Let_def)
  from infer_aligned_Inr [OF eq this]
  have len: "length r = ?n"
    and ix: "\<forall>k<?n. r ! k = max (pad_left ?n a ! k) (pad_left ?n b ! k) \<and>
        (pad_left ?n a ! k = pad_left ?n b ! k \<or> pad_left ?n a ! k = 1 \<or> pad_left ?n b ! k = 1)"
    by (simp_all add: length_pad_left)
  show "length r = ?n" by (rule len)
  show "k < length r \<Longrightarrow> r ! k = max (pad_left (length r) a ! k) (pad_left (length r) b ! k)"
    using len ix by simp
  show "k < length r \<Longrightarrow> pad_left (length r) a ! k = pad_left (length r) b ! k
           \<or> pad_left (length r) a ! k = 1 \<or> pad_left (length r) b ! k = 1"
    using len ix by simp
qed

subsection \<open>The body of \<open>linalg_cross_out\<close>, step by step\<close>

lemma maybe_wrap_dim_Inr:
  "maybe_wrap_dim d rank = Inr k \<Longrightarrow> 0 \<le> k \<and> k < rank \<and> k = (if d < 0 then d + rank else d)"
  by (auto simp: maybe_wrap_dim_def split: if_splits)

lemma maybe_wrap_dim_Inl: "maybe_wrap_dim d rank = Inl e \<Longrightarrow> e = AxisOutOfRange"
  by (auto simp: maybe_wrap_dim_def split: if_splits)

lemma maybe_wrap_dim_idem: "0 \<le> k \<Longrightarrow> k < rank \<Longrightarrow> maybe_wrap_dim k rank = Inr k"
  by (simp add: maybe_wrap_dim_def)

lemma size_at_in_range:
  "0 \<le> k \<Longrightarrow> k < int (length (sizes t)) \<Longrightarrow> size_at t k = Inr (sizes t ! nat k)"
  by (simp add: size_at_def dim_def maybe_wrap_dim_idem)

lemma sizes_expand: "sizes (expand t shape) = shape"
  by (simp add: expand_def)

lemma broadcast_to_eq:
  "broadcast_to t out_size w =
     (if sizes t \<noteq> out_size then expand t out_size else t,
      w\<lparr>log := log w @ (if sizes t \<noteq> out_size then [Expand t out_size] else [])\<rparr>)"
  by (simp add: broadcast_to_def)

lemma linalg_cross_out_incompatible:
  "infer_size (sizes input) (sizes other) = Inl e \<Longrightarrow>
     linalg_cross_out tbl input other dimension w = (Inl e, w)"
  by (simp add: linalg_cross_out_def)

lemma linalg_cross_out_unfold:
  assumes inf: "infer_size (sizes input) (sizes other) = Inr out_size"
  shows "linalg_cross_out tbl input other dimension w =
     (case maybe_wrap_dim dimension (dim input) of
        Inl e \<Rightarrow>
          (Inl e, w\<lparr>log := log w @ (if sizes input \<noteq> out_size then [Expand input out_size] else [])
                                 @ (if sizes other \<noteq> out_size then [Expand other out_size] else [])\<rparr>)
      | Inr d \<Rightarrow>
          if out_size ! nat d \<noteq> 3
          then (Inl AxisExtentMismatch,
                w\<lparr>log := log w @ (if sizes input \<noteq> out_size then [Expand input out_size] else [])
                                 @ (if sizes other \<noteq> out_size then [Expand other out_size] else [])\<rparr>)
          else cross_stub tbl (device input)
                 (resize_output
                    (w\<lparr>log := log w @ (if sizes input \<noteq> out_size then [Expand input out_size] else [])
                                     @ (if sizes other \<noteq> out_size then [Expand other out_size] else [])\<rparr>)
                    out_size)
                 (if sizes input \<noteq> out_size then expand input out_size else input)
                 (if sizes other \<noteq> out_size then expand other out_size else other) d)"
proof (cases "maybe_wrap_dim dimension (dim input)")
  case (Inl e)
  with inf show ?thesis by (simp add: linalg_cross_out_def broadcast_to_eq)
next
  case (Inr d)
  from maybe_wrap_dim_Inr [OF Inr] have d: "0 \<le> d" "d < dim input" by auto
  from infer_size_Inr(1) [OF inf] have "length (sizes input) \<le> length out_size" by simp
  with d have "d < int (length out_size)" by (simp add: dim_def)
  with d(1) have sz: "size_at (if sizes input \<noteq> out_size then expand input out_size else input) d
      = Inr (out_size ! nat d)"
    using size_at_in_range [of d "if sizes input \<noteq> out_size then expand input out_size else input"]
    by (simp add: sizes_expand split: if_splits)
  show ?thesis
    unfolding linalg_cross_out_def Let_def inf Inr broadcast_to_eq
    using sz by (simp split: if_splits)
qed

subsection \<open>The extent check\<close>

text \<open>
  What the code does guarantee about the wrapped axis: it is the axis plus the rank of the
  first input when the axis is negative, and it is a valid index of the broadcast shape,
  whose rank is at least that of the first input.
\<close>

lemma wrapped_axis_in_broadcast_range:
  assumes inf: "infer_size (sizes input) (sizes other) = Inr out_size"
    and wr: "maybe_wrap_dim dimension (dim input) = Inr d"
  shows "0 \<le> d \<and> d < int (length out_size) \<and>
         d = (if dimension < 0 then dimension + dim input else dimension)"
proof -
  from infer_size_Inr(1) [OF inf] have "dim input \<le> int (length out_size)"
    by (simp add: dim_def)
  with maybe_wrap_dim_Inr [OF wr] show ?thesis by simp
qed

lemma infer_size_head:
  assumes inf: "infer_size a b = Inr r" and ne: "a \<noteq> []" and len: "length b \<le> length a"
    and a0: "a ! 0 = 4"
  shows "r ! 0 = 4"
proof -
  from infer_size_Inr(1) [OF inf] len have n: "length r = length a" by simp
  with ne have k: "0 < length r" by simp
  have pa: "pad_left (length r) a = a" by (simp add: pad_left_def n)
  from infer_size_Inr(2) [OF inf k] pa a0
  have m: "r ! 0 = max 4 (pad_left (length r) b ! 0)" by simp
  from infer_size_Inr(3) [OF inf k] pa a0
  have "pad_left (length r) b ! 0 = 4 \<or> pad_left (length r) b ! 0 = 1" by auto
  with m show ?thesis by auto
qed

lemma infer_size_43: "infer_size [4, 3] [4, 3] = Inr [4, 3]"
  by (simp add: infer_size_def pad_left_def)

lemma extent_mismatch_core:
  assumes inf: "infer_size (sizes input) (sizes other) = Inr out_size"
    and wr: "maybe_wrap_dim dimension (dim input) = Inr d"
    and ext: "out_size ! nat d \<noteq> 3"
  shows "linalg_cross_out tbl input other dimension w =
           (Inl AxisExtentMismatch, snd (broadcast_to other out_size (snd (broadcast_to input out_size w))))"
  using wr ext by (simp add: linalg_cross_out_unfold [OF inf] broadcast_to_eq)

lemma wrap_same_rank:
  assumes inf: "infer_size (sizes input) (sizes other) = Inr out_size"
    and len: "length (sizes other) \<le> length (sizes input)"
  shows "maybe_wrap_dim dimension (dim input) = maybe_wrap_dim dimension (int (length out_size))"
proof -
  from infer_size_Inr(1) [OF inf] len have "length out_size = length (sizes input)" by simp
  then show ?thesis by (simp add: dim_def)
qed

text \<open>
  Claim C4, as amended. Once the shapes broadcast, \<open>linalg_cross_out\<close> fails with
  \<open>AxisExtentMismatch\<close> whenever the axis, resolved against the rank of the broadcast
  shape, is the axis the code resolves against the first input, and the extent of the
  broadcast shape (the shape of both expanded inputs) there is not 3. The two resolutions
  agree when the second input has no greater rank than the first, and when the axis is
  non-negative and below the rank of the first input. The example: with axis 0 and a
  first input whose extent at dimension 0 is 4, broadcast against a second input of no
  greater rank, the call fails with this error.
\<close>

theorem extent_mismatch_on_agreed_axis:
  "(infer_size (sizes input) (sizes other) = Inr out_size \<and>
    maybe_wrap_dim dimension (int (length out_size)) = Inr d \<and>
    maybe_wrap_dim dimension (dim input) = Inr d \<and> out_size ! nat d \<noteq> 3
      \<longrightarrow> linalg_cross_out tbl input other dimension w =
            (Inl AxisExtentMismatch,
             snd (broadcast_to other out_size (snd (broadcast_to input out_size w)))) \<and>
          sizes (fst (broadcast_to input out_size w)) = out_size \<and>
          sizes (fst (broadcast_to other out_size w)) = out_size) \<and>
   (infer_size (sizes input) (sizes other) = Inr out_size \<and>
    length (sizes other) \<le> length (sizes input) \<and>
    maybe_wrap_dim dimension (int (length out_size)) = Inr d \<and> out_size ! nat d \<noteq> 3
      \<longrightarrow> fst (linalg_cross_out tbl input other dimension w) = Inl AxisExtentMismatch) \<and>
   (infer_size (sizes input) (sizes other) = Inr out_size \<and>
    0 \<le> dimension \<and> dimension < dim input \<and> out_size ! nat dimension \<noteq> 3
      \<longrightarrow> maybe_wrap_dim dimension (int (length out_size)) = Inr dimension \<and>
          fst (linalg_cross_out tbl input other dimension w) = Inl AxisExtentMismatch) \<and>
   (infer_size (sizes input) (sizes other) = Inr out_size \<and>
    sizes input \<noteq> [] \<and> sizes input ! 0 = 4 \<and> length (sizes other) \<le> length (sizes input)
      \<longrightarrow> fst (linalg_cross_out tbl input other 0 w) = Inl AxisExtentMismatch)"
proof (intro conjI impI)
  assume h: "infer_size (sizes input) (sizes other) = Inr out_size \<and>
    maybe_wrap_dim dimension (int (length out_size)) = Inr d \<and>
    maybe_wrap_dim dimension (dim input) = Inr d \<and> out_size ! nat d \<noteq> 3"
  then show "linalg_cross_out tbl input other dimension w =
            (Inl AxisExtentMismatch,
             snd (broadcast_to other out_size (snd (broadcast_to input out_size w))))"
    by (simp add: extent_mismatch_core)
  show "sizes (fst (broadcast_to input out_size w)) = out_size"
    by (simp add: broadcast_to_eq sizes_expand)
  show "sizes (fst (broadcast_to other out_size w)) = out_size"
    by (simp add: broadcast_to_eq sizes_expand)
next
  assume h: "infer_size (sizes input) (sizes other) = Inr out_size \<and>
    length (sizes other) \<le> length (sizes input) \<and>
    maybe_wrap_dim dimension (int (length out_size)) = Inr d \<and> out_size ! nat d \<noteq> 3"
  then have inf: "infer_size (sizes input) (sizes other) = Inr out_size" by simp
  from h wrap_same_rank [OF inf, of dimension]
  have "maybe_wrap_dim dimension (dim input) = Inr d" by simp
  with h show "fst (linalg_cross_out tbl input other dimension w) = Inl AxisExtentMismatch"
    by (simp add: extent_mismatch_core [OF inf])
next
  assume h: "infer_size (sizes input) (sizes other) = Inr out_size \<and>
    0 \<le> dimension \<and> dimension < dim input \<and> out_size ! nat dimension \<noteq> 3"
  then have inf: "infer_size (sizes input) (sizes other) = Inr out_size" by simp
  from h have wr: "maybe_wrap_dim dimension (dim input) = Inr dimension"
    by (simp add: maybe_wrap_dim_idem)
  from wrapped_axis_in_broadcast_range [OF inf wr] h
  show "maybe_wrap_dim dimension (int (length out_size)) = Inr dimension"
    by (simp add: maybe_wrap_dim_idem)
  from h wr show "fst (linalg_cross_out tbl input other dimension w) = Inl AxisExtentMismatch"
    by (simp add: extent_mismatch_core [OF inf])
next
  assume h: "infer_size (sizes input) (sizes other) = Inr out_size \<and>
    sizes input \<noteq> [] \<and> sizes input ! 0 = 4 \<and> length (sizes other) \<le> length (sizes input)"
  then have inf: "infer_size (sizes input) (sizes other) = Inr out_size" by simp
  from h have "out_size ! 0 = 4" by (auto intro: infer_size_head)
  moreover from h have "maybe_wrap_dim 0 (dim input) = Inr 0"
    by (simp add: maybe_wrap_dim_def dim_def)
  ultimately show "fst (linalg_cross_out tbl input other 0 w) = Inl AxisExtentMismatch"
    by (simp add: extent_mismatch_core [OF inf])
qed

theorem extent_mismatch_on_agreed_axis_witness:
  "infer_size (sizes mat43) (sizes mat43) = Inr [4, 3] \<and>
   length (sizes mat43) \<le> length (sizes mat43) \<and>
   maybe_wrap_dim (- 2) (int (length [4, 3 :: int])) = Inr 0 \<and>
   maybe_wrap_dim (- 2) (dim mat43) = Inr 0 \<and> [4, 3 :: int] ! nat 0 \<noteq> 3 \<and>
   sizes mat43 \<noteq> [] \<and> sizes mat43 ! 0 = 4 \<and>
   linalg_cross_out cross_table mat43 mat43 (- 2) used_out = (Inl AxisExtentMismatch, used_out) \<and>
   fst (linalg_cross_out cross_table mat43 mat43 0 used_out) = Inl AxisExtentMismatch"
  using extent_mismatch_on_agreed_axis [of mat43 mat43 "[4, 3]" "- 2" 0 cross_table used_out]
  by (simp add: mat43_def infer_size_43 maybe_wrap_dim_def dim_def broadcast_to_def)

lemma run_mat43_ten343:
  "fst (linalg_cross_out cross_table mat43 ten343 0 used_out) = Inr ()"
  by code_simp

lemma run_mat43_mat23:
  "fst (linalg_cross_out cross_table mat43 mat23 0 used_out) = Inl IncompatibleShapes"
  by code_simp

lemma run_vec1_mat34:
  "fst (linalg_cross_out cross_table vec1 mat34 (- 1) used_out) = Inr ()"
  by code_simp

text \<open>
  The claim as it was stated fails in two places. A second input of greater rank puts its
  own leading dimension at axis 0: shapes \<open>(4, 3)\<close> and \<open>(3, 4, 3)\<close> with axis 0 succeed,
  though the first input's extent at dimension 0 is 4; and against a second input it does
  not broadcast with, shape \<open>(2, 3)\<close>, the failure is \<open>IncompatibleShapes\<close>. And for shapes \<open>(1)\<close> and
  \<open>(3, 4)\<close> with axis \<open>-1\<close> the axis resolved against the broadcast rank is 1, of extent
  4, yet the call succeeds, because the code resolves the axis against the first input.
\<close>

theorem extent_mismatch_counterexample:
  "sizes mat43 ! 0 = 4 \<and>
   fst (linalg_cross_out cross_table mat43 ten343 0 used_out) = Inr () \<and>
   fst (linalg_cross_out cross_table mat43 ten343 0 used_out) \<noteq> Inl AxisExtentMismatch \<and>
   fst (linalg_cross_out cross_table mat43 mat23 0 used_out) = Inl IncompatibleShapes \<and>
   infer_size (sizes vec1) (sizes mat34) = Inr [3, 4] \<and>
   maybe_wrap_dim (- 1) (int (length [3, 4 :: int])) = Inr 1 \<and>
   [3, 4 :: int] ! nat 1 = 4 \<and>
   fst (linalg_cross_out cross_table vec1 mat34 (- 1) used_out) = Inr () \<and>
   fst (linalg_cross_out cross_table vec1 mat34 (- 1) used_out) \<noteq> Inl AxisExtentMismatch"
proof -
  have "sizes mat43 ! 0 = 4" by (simp add: mat43_def)
  moreover have "infer_size (sizes vec1) (sizes mat34) = Inr [3, 4]"
    by (simp add: vec1_def mat34_def infer_size_def pad_left_def)
  moreover have "maybe_wrap_dim (- 1) (int (length [3, 4 :: int])) = Inr 1"
    by (simp add: maybe_wrap_dim_def)
  moreover have "[3, 4 :: int] ! nat 1 = 4" by simp
  ultimately show ?thesis using run_mat43_ten343 run_mat43_mat23 run_vec1_mat34 by simp
qed

subsection \<open>Incompatible shapes\<close>

text \<open>
  Claim C5. If the shapes of the two inputs are not broadcast-compatible,
  \<open>linalg_cross_out\<close> fails with \<open>IncompatibleShapes\<close> before doing anything else. If two
  shapes are broadcast-compatible, the inferred shape has the greater rank and, at every
  position of the right-aligned shapes, the greater of the two extents.
\<close>

theorem incompatible_shapes_or_max:
  "(\<not> broadcast_compatible (sizes input) (sizes other)
      \<longrightarrow> linalg_cross_out tbl input other dimension w = (Inl IncompatibleShapes, w)) \<and>
   (broadcast_compatible a b
      \<longrightarrow> (\<exists>r. infer_size a b = Inr r \<and> length r = max (length a) (length b) \<and>
               (\<forall>k<length r. r ! k = max (pad_left (length r) a ! k) (pad_left (length r) b ! k))))"
proof (intro conjI impI)
  assume "\<not> broadcast_compatible (sizes input) (sizes other)"
  then have "\<not> (\<exists>r. infer_size (sizes input) (sizes other) = Inr r)"
    by (simp add: infer_size_compatible)
  then obtain e where e: "infer_size (sizes input) (sizes other) = Inl e"
    by (cases "infer_size (sizes input) (sizes other)") auto
  with infer_size_Inl [OF e] show "linalg_cross_out tbl input other dimension w = (Inl IncompatibleShapes, w)"
    by (simp add: linalg_cross_out_incompatible)
next
  assume "broadcast_compatible a b"
  then obtain r where r: "infer_size a b = Inr r"
    using infer_size_compatible [of a b] by blast
  from infer_size_Inr(1) [OF r] infer_size_Inr(2) [OF r] r
  show "\<exists>r. infer_size a b = Inr r \<and> length r = max (length a) (length b) \<and>
          (\<forall>k<length r. r ! k = max (pad_left (length r) a ! k) (pad_left (length r) b ! k))"
    by blast
qed

theorem incompatible_shapes_or_max_witness:
  "\<not> broadcast_compatible (sizes mat23) (sizes mat43) \<and>
   linalg_cross_out cross_table mat23 mat43 1 used_out = (Inl IncompatibleShapes, used_out) \<and>
   broadcast_compatible [2, 1, 3] [4, 3] \<and>
   infer_size [2, 1, 3] [4, 3] = Inr [2, 4, 3]"
proof -
  have n: "\<not> broadcast_compatible (sizes mat23) (sizes mat43)"
    by (simp add: broadcast_compatible_def pad_left_def mat23_def mat43_def)
  have c: "broadcast_compatible [2, 1, 3] [4, 3]"
    by (simp add: broadcast_compatible_def pad_left_def)
  have v: "infer_size [2, 1, 3] [4, 3] = Inr [2, 4, 3]"
    by (simp add: infer_size_def pad_left_def)
  from incompatible_shapes_or_max [of mat23 mat43 cross_table 1 used_out "[2, 1, 3]" "[4, 3]"] n c v
  show ?thesis by simp
qed

subsection \<open>The log of a call\<close>

lemma cross_stub_log:
  "cross_stub tbl dev w a b d = (r, w') \<Longrightarrow> log w' = log w @ [Dispatch dev a b d]"
  by (auto simp: cross_stub_def Let_def split: option.splits)

lemma cross_stub_out:
  "cross_stub tbl dev w a b d = (r, w') \<Longrightarrow>
     sizes (out_t w') = sizes (out_t w) \<and> (r = Inl UnsupportedDevice \<or> r = Inr ())"
  by (auto simp: cross_stub_def Let_def split: option.splits)

lemma resize_output_sizes: "sizes (out_t (resize_output w shape)) = shape"
  by (simp add: resize_output_def)

lemma resize_output_log:
  "log (resize_output w shape) =
     log w @ (if sizes (out_t w) \<noteq> shape \<and> numel (out_t w) \<noteq> 0 then [DiscardWarning] else [])"
  by (simp add: resize_output_def)

lemma linalg_cross_out_log:
  assumes inf: "infer_size (sizes input) (sizes other) = Inr out_size"
    and run: "linalg_cross_out tbl input other dimension w = (r, w')"
  shows "log w' = log w @ (if sizes input \<noteq> out_size then [Expand input out_size] else [])
                        @ (if sizes other \<noteq> out_size then [Expand other out_size] else [])
          \<and> out_t w' = out_t w \<and>
          (r = Inl AxisOutOfRange \<or> r = Inl AxisExtentMismatch)
        \<or> (\<exists>d. maybe_wrap_dim dimension (dim input) = Inr d \<and> out_size ! nat d = 3 \<and>
             log w' = log w @ (if sizes input \<noteq> out_size then [Expand input out_size] else [])
                        @ (if sizes other \<noteq> out_size then [Expand other out_size] else [])
                        @ (if sizes (out_t w) \<noteq> out_size \<and> numel (out_t w) \<noteq> 0
                           then [DiscardWarning] else [])
                        @ [Dispatch (device input)
                             (if sizes input \<noteq> out_size then expand input out_size else input)
                             (if sizes other \<noteq> out_size then expand other out_size else other) d]
             \<and> sizes (out_t w') = out_size \<and> (r = Inl UnsupportedDevice \<or> r = Inr ()))"
proof (cases "maybe_wrap_dim dimension (dim input)")
  case (Inl e)
  from maybe_wrap_dim_Inl [OF Inl] Inl run show ?thesis
    by (auto simp: linalg_cross_out_unfold [OF inf])
next
  case (Inr d)
  show ?thesis
  proof (cases "out_size ! nat d = 3")
    case False
    with Inr run show ?thesis by (auto simp: linalg_cross_out_unfold [OF inf])
  next
    case True
    let ?w2 = "w\<lparr>log := log w @ (if sizes input \<noteq> out_size then [Expand input out_size] else [])
                                @ (if sizes other \<noteq> out_size then [Expand other out_size] else [])\<rparr>"
    from True Inr run
    have st: "cross_stub tbl (device input) (resize_output ?w2 out_size)
              (if sizes input \<noteq> out_size then expand input out_size else input)
              (if sizes other \<noteq> out_size then expand other out_size else other) d = (r, w')"
      by (simp add: linalg_cross_out_unfold [OF inf])
    from cross_stub_log [OF st] cross_stub_out [OF st] Inr True
    show ?thesis
      by (simp add: resize_output_log resize_output_sizes numel_def)
  qed
qed

subsection \<open>Expansion only where the shape differs\<close>

text \<open>
  Claim C6. An input whose shape already is the broadcast shape is not expanded: the
  call makes no \<open>expand\<close> on it, and the tensor handed to the kernel in its place is the
  input itself. This holds for the first and for the second input.
\<close>

theorem no_expand_when_shape_matches:
  "infer_size (sizes input) (sizes other) = Inr out_size \<Longrightarrow>
   linalg_cross_out tbl input other dimension w = (r, w') \<Longrightarrow>
   \<exists>evs. log w' = log w @ evs \<and>
     (sizes input = out_size \<longrightarrow>
        fst (broadcast_to input out_size w) = input \<and>
        (\<forall>s. Expand input s \<notin> set evs) \<and>
        (\<forall>dv a b d. Dispatch dv a b d \<in> set evs \<longrightarrow> a = input)) \<and>
     (sizes other = out_size \<longrightarrow>
        fst (broadcast_to other out_size w) = other \<and>
        (\<forall>s. Expand other s \<notin> set evs) \<and>
        (\<forall>dv a b d. Dispatch dv a b d \<in> set evs \<longrightarrow> b = other))"
proof -
  assume inf: "infer_size (sizes input) (sizes other) = Inr out_size"
    and run: "linalg_cross_out tbl input other dimension w = (r, w')"
  let ?E = "(if sizes input \<noteq> out_size then [Expand input out_size] else [])
              @ (if sizes other \<noteq> out_size then [Expand other out_size] else [])"
  let ?W = "if sizes (out_t w) \<noteq> out_size \<and> numel (out_t w) \<noteq> 0 then [DiscardWarning] else []"
  let ?ib = "if sizes input \<noteq> out_size then expand input out_size else input"
  let ?ob = "if sizes other \<noteq> out_size then expand other out_size else other"
  from linalg_cross_out_log [OF inf run]
  consider (stopped) "log w' = log w @ ?E"
    | (dispatched) d where "log w' = log w @ ?E @ ?W @ [Dispatch (device input) ?ib ?ob d]"
    by auto
  then show ?thesis
  proof cases
    case stopped
    show ?thesis
      by (rule exI [of _ ?E]) (use stopped in \<open>auto simp: broadcast_to_eq\<close>)
  next
    case dispatched
    show ?thesis
      by (rule exI [of _ "?E @ ?W @ [Dispatch (device input) ?ib ?ob d]"])
         (use dispatched in \<open>auto simp: broadcast_to_eq\<close>)
  qed
qed

lemma infer_size_vec3_mat23: "infer_size [3] [2, 3] = Inr [2, 3]"
  by (simp add: infer_size_def pad_left_def)

lemma infer_size_mat23_vec3: "infer_size [2, 3] [3] = Inr [2, 3]"
  by (simp add: infer_size_def pad_left_def)

lemma run_mat23_vec3:
  "linalg_cross_out cross_table mat23 vec3 (- 1) used_out =
     (Inr (), \<lparr>out_t = \<lparr>sizes = [2, 3], device = CPU, elems = [0, 0, - 1, 0, 1, 0]\<rparr>,
              log = [Expand vec3 [2, 3], DiscardWarning,
                     Dispatch CPU mat23 (expand vec3 [2, 3]) 1]\<rparr>)"
  by code_simp

theorem no_expand_when_shape_matches_witness:
  "infer_size (sizes mat23) (sizes vec3) = Inr [2, 3] \<and>
   sizes mat23 = [2, 3] \<and>
   fst (broadcast_to mat23 [2, 3] used_out) = mat23 \<and>
   (\<forall>s. Expand mat23 s \<notin> set [Expand vec3 [2, 3], DiscardWarning,
                                     Dispatch CPU mat23 (expand vec3 [2, 3]) 1])"
proof -
  have inf: "infer_size (sizes mat23) (sizes vec3) = Inr [2, 3]"
    by (simp add: mat23_def vec3_def infer_size_mat23_vec3)
  have sz: "sizes mat23 = [2, 3]" by (simp add: mat23_def)
  from no_expand_when_shape_matches [OF inf run_mat23_vec3] sz inf
  show ?thesis by (simp add: used_out_def)
qed

subsection \<open>The output after a successful call\<close>

lemma linalg_cross_out_success:
  assumes run: "linalg_cross_out tbl input other d w = (Inr (), w')"
  shows "\<exists>out_size. infer_size (sizes input) (sizes other) = Inr out_size \<and>
           sizes (out_t w') = out_size \<and>
           count_list (log w') DiscardWarning =
             count_list (log w) DiscardWarning +
             (if numel (out_t w) \<noteq> 0 \<and> sizes (out_t w) \<noteq> out_size then 1 else 0)"
proof (cases "infer_size (sizes input) (sizes other)")
  case (Inl e)
  from linalg_cross_out_incompatible [OF Inl] run show ?thesis by simp
next
  case (Inr out_size)
  from linalg_cross_out_log [OF Inr run]
  have "sizes (out_t w') = out_size \<and>
        count_list (log w') DiscardWarning =
          count_list (log w) DiscardWarning +
          (if numel (out_t w) \<noteq> 0 \<and> sizes (out_t w) \<noteq> out_size then 1 else 0)"
    by auto
  with Inr show ?thesis by simp
qed

text \<open>
  Claim C7. After a successful \<open>linalg_cross_out\<close> or \<open>cross_out\<close> the shape of the
  output is the broadcast shape of the two inputs. The call adds exactly one discard
  warning to the log when the supplied output had elements and another shape, and none
  otherwise; the warning does not make the call fail.
\<close>

theorem output_shape_after_success:
  "(linalg_cross_out tbl input other d w = (Inr (), w') \<longrightarrow>
      (\<exists>out_size. infer_size (sizes input) (sizes other) = Inr out_size \<and>
         sizes (out_t w') = out_size \<and>
         count_list (log w') DiscardWarning =
           count_list (log w) DiscardWarning +
           (if numel (out_t w) \<noteq> 0 \<and> sizes (out_t w) \<noteq> out_size then 1 else 0))) \<and>
   (cross_out tbl input other dimension w = (Inr (), w') \<longrightarrow>
      (\<exists>out_size. infer_size (sizes input) (sizes other) = Inr out_size \<and>
         sizes (out_t w') = out_size \<and>
         count_list (log w') DiscardWarning =
           count_list (log w) DiscardWarning +
           (if numel (out_t w) \<noteq> 0 \<and> sizes (out_t w) \<noteq> out_size then 1 else 0)))"
proof (intro conjI impI)
  assume "linalg_cross_out tbl input other d w = (Inr (), w')"
  then show "\<exists>out_size. infer_size (sizes input) (sizes other) = Inr out_size \<and>
         sizes (out_t w') = out_size \<and>
         count_list (log w') DiscardWarning =
           count_list (log w) DiscardWarning +
           (if numel (out_t w) \<noteq> 0 \<and> sizes (out_t w) \<noteq> out_size then 1 else 0)"
    by (rule linalg_cross_out_success)
next
  assume run: "cross_out tbl input other dimension w = (Inr (), w')"
  then obtain k where "linalg_cross_out tbl input other k w = (Inr (), w')"
    by (cases "default_cross_dim dimension (sizes input)") (auto simp: cross_out_def)
  then show "\<exists>out_size. infer_size (sizes input) (sizes other) = Inr out_size \<and>
         sizes (out_t w') = out_size \<and>
         count_list (log w') DiscardWarning =
           count_list (log w) DiscardWarning +
           (if numel (out_t w) \<noteq> 0 \<and> sizes (out_t w) \<noteq> out_size then 1 else 0)"
    by (rule linalg_cross_out_success)
qed

lemma run_cross_out_mat23_vec3:
  "cross_out cross_table mat23 vec3 None used_out =
     (Inr (), \<lparr>out_t = \<lparr>sizes = [2, 3], device = CPU, elems = [0, 0, - 1, 0, 1, 0]\<rparr>,
              log = [Expand vec3 [2, 3], DiscardWarning,
                     Dispatch CPU mat23 (expand vec3 [2, 3]) 1]\<rparr>)"
  by code_simp

theorem output_shape_after_success_witness:
  "cross_out cross_table mat23 vec3 None used_out =
     (Inr (), \<lparr>out_t = \<lparr>sizes = [2, 3], device = CPU, elems = [0, 0, - 1, 0, 1, 0]\<rparr>,
              log = [Expand vec3 [2, 3], DiscardWarning,
                     Dispatch CPU mat23 (expand vec3 [2, 3]) 1]\<rparr>) \<and>
   numel (out_t used_out) = 1 \<and> sizes (out_t used_out) = [1] \<and>
   infer_size (sizes mat23) (sizes vec3) = Inr [2, 3] \<and>
   count_list [Expand vec3 [2, 3], DiscardWarning, Dispatch CPU mat23 (expand vec3 [2, 3]) 1]
     DiscardWarning = 1"
proof -
  have inf: "infer_size (sizes mat23) (sizes vec3) = Inr [2, 3]"
    by (simp add: mat23_def vec3_def infer_size_mat23_vec3)
  have u: "numel (out_t used_out) = 1 \<and> sizes (out_t used_out) = [1] \<and> log used_out = []"
    by (simp add: used_out_def numel_def)
  from output_shape_after_success [of cross_table mat23 vec3 1 used_out
      "\<lparr>out_t = \<lparr>sizes = [2, 3], device = CPU, elems = [0, 0, - 1, 0, 1, 0]\<rparr>,
        log = [Expand vec3 [2, 3], DiscardWarning, Dispatch CPU mat23 (expand vec3 [2, 3]) 1]\<rparr>"
      None]
    run_cross_out_mat23_vec3 inf u
  show ?thesis by simp
qed

subsection \<open>Failure before the output is touched\<close>

text \<open>
  Claim C9. When \<open>linalg_cross_out\<close> fails with \<open>IncompatibleShapes\<close>, with the axis
  error of \<open>maybe_wrap_dim\<close> or with \<open>AxisExtentMismatch\<close>, the caller's output tensor
  is as it was, shape and contents: these checks all come before \<open>resize_output\<close> and
  the stub, so the call has logged neither a discard warning nor a dispatch.
\<close>

theorem output_unchanged_on_validation_failure:
  "linalg_cross_out tbl input other dimension w = (Inl e, w') \<Longrightarrow>
   e \<in> {IncompatibleShapes, AxisOutOfRange, AxisExtentMismatch} \<Longrightarrow>
   out_t w' = out_t w \<and>
   (\<exists>evs. log w' = log w @ evs \<and> DiscardWarning \<notin> set evs \<and>
          (\<forall>dv a b d. Dispatch dv a b d \<notin> set evs))"
proof -
  assume run: "linalg_cross_out tbl input other dimension w = (Inl e, w')"
    and e: "e \<in> {IncompatibleShapes, AxisOutOfRange, AxisExtentMismatch}"
  show ?thesis
  proof (cases "infer_size (sizes input) (sizes other)")
    case (Inl e')
    from linalg_cross_out_incompatible [OF Inl] run have "w' = w" by simp
    then show ?thesis by simp
  next
    case (Inr out_size)
    let ?E = "(if sizes input \<noteq> out_size then [Expand input out_size] else [])
                @ (if sizes other \<noteq> out_size then [Expand other out_size] else [])"
    from linalg_cross_out_log [OF Inr run] e
    have l: "log w' = log w @ ?E" and o: "out_t w' = out_t w" by auto
    have "DiscardWarning \<notin> set ?E \<and> (\<forall>dv a b d. Dispatch dv a b d \<notin> set ?E)" by simp
    with l o show ?thesis by blast
  qed
qed

lemma run_vec3_mat23:
  "linalg_cross_out cross_table vec3 mat23 (- 1) used_out =
     (Inl AxisExtentMismatch, used_out\<lparr>log := [Expand vec3 [2, 3]]\<rparr>)"
  by code_simp

theorem output_unchanged_on_validation_failure_witness:
  "linalg_cross_out cross_table vec3 mat23 (- 1) used_out =
     (Inl AxisExtentMismatch, used_out\<lparr>log := [Expand vec3 [2, 3]]\<rparr>) \<and>
   out_t (used_out\<lparr>log := [Expand vec3 [2, 3]]\<rparr>) = out_t used_out \<and>
   out_t used_out = \<lparr>sizes = [1], device = CPU, elems = [9]\<rparr>"
  using output_unchanged_on_validation_failure [OF run_vec3_mat23] run_vec3_mat23
  by (simp add: used_out_def)

subsection \<open>The device tag that selects the kernel\<close>

lemma cross_stub_table:
  "tbl' dev = tbl dev \<Longrightarrow> cross_stub tbl' dev w a b d = cross_stub tbl dev w a b d"
  by (simp add: cross_stub_def)

lemma linalg_cross_out_table:
  assumes "tbl' (device input) = tbl (device input)"
  shows "linalg_cross_out tbl' input other dimension w = linalg_cross_out tbl input other dimension w"
proof (cases "infer_size (sizes input) (sizes other)")
  case (Inl e)
  then show ?thesis by (simp add: linalg_cross_out_incompatible)
next
  case (Inr out_size)
  show ?thesis
    by (simp add: linalg_cross_out_unfold [OF Inr] cross_stub_table [of tbl' "device input" tbl, OF assms]
        split: sum.splits)
qed

lemma fst_cross_stub:
  "fst (cross_stub tbl dev w a b d) = (case tbl dev of None \<Rightarrow> Inl UnsupportedDevice | Some k \<Rightarrow> Inr ())"
  by (simp add: cross_stub_def Let_def split: option.splits)

lemma linalg_cross_out_other_device:
  "fst (linalg_cross_out tbl input (other\<lparr>device := dv\<rparr>) dimension w)
     = fst (linalg_cross_out tbl input other dimension w)"
proof (cases "infer_size (sizes input) (sizes other)")
  case (Inl e)
  then show ?thesis by (simp add: linalg_cross_out_incompatible)
next
  case (Inr out_size)
  then have inf': "infer_size (sizes input) (sizes (other\<lparr>device := dv\<rparr>)) = Inr out_size" by simp
  show ?thesis
    by (simp add: linalg_cross_out_unfold [OF Inr] linalg_cross_out_unfold [OF inf'] fst_cross_stub
        split: sum.splits)
qed

lemma out_t_resize_output_log:
  "out_t (resize_output (w\<lparr>log := l\<rparr>) shape) = out_t (resize_output w shape)"
  by (simp add: resize_output_def)

lemma expand_device_update:
  "expand (t\<lparr>device := dv\<rparr>) shape = (expand t shape)\<lparr>device := dv\<rparr>"
  by (simp add: expand_def)

lemma linalg_cross_out_reaches_stub:
  assumes run: "linalg_cross_out tbl input other dimension w = (r, w')"
    and r: "r = Inr () \<or> r = Inl UnsupportedDevice"
  shows "\<exists>out_size d evs.
           infer_size (sizes input) (sizes other) = Inr out_size \<and>
           maybe_wrap_dim dimension (dim input) = Inr d \<and>
           out_size ! nat d = 3 \<and>
           cross_stub tbl (device input)
             (resize_output (w\<lparr>log := log w @ evs\<rparr>) out_size)
             (fst (broadcast_to input out_size w)) (fst (broadcast_to other out_size w)) d = (r, w')"
proof (cases "infer_size (sizes input) (sizes other)")
  case (Inl e)
  from linalg_cross_out_incompatible [OF Inl] run r infer_size_Inl [OF Inl] show ?thesis by auto
next
  case (Inr out_size)
  show ?thesis
  proof (cases "maybe_wrap_dim dimension (dim input)")
    case (Inl e)
    from maybe_wrap_dim_Inl [OF Inl] Inl run r show ?thesis
      by (auto simp: linalg_cross_out_unfold [OF Inr])
  next
    case d: (Inr d)
    show ?thesis
    proof (cases "out_size ! nat d = 3")
      case False
      with d run r show ?thesis by (auto simp: linalg_cross_out_unfold [OF Inr])
    next
      case True
      let ?E = "(if sizes input \<noteq> out_size then [Expand input out_size] else [])
                  @ (if sizes other \<noteq> out_size then [Expand other out_size] else [])"
      from True d run
      have "cross_stub tbl (device input)
              (resize_output (w\<lparr>log := log w @ ?E\<rparr>) out_size)
              (fst (broadcast_to input out_size w)) (fst (broadcast_to other out_size w)) d = (r, w')"
        by (simp add: linalg_cross_out_unfold [OF Inr] broadcast_to_eq)
      with True d Inr show ?thesis by blast
    qed
  qed
qed

lemma linalg_cross_out_success_kernel:
  assumes run: "linalg_cross_out tbl input other dimension w = (Inr (), w')"
  shows "\<exists>k out_size d. tbl (device input) = Some k \<and>
           infer_size (sizes input) (sizes other) = Inr out_size \<and>
           maybe_wrap_dim dimension (dim input) = Inr d \<and>
           out_t w' = (out_t (resize_output w out_size))
             \<lparr>elems := k (fst (broadcast_to input out_size w)) (fst (broadcast_to other out_size w)) d\<rparr> \<and>
           (\<exists>evs. log w' = log w @ evs @
              [Dispatch (device input) (fst (broadcast_to input out_size w))
                 (fst (broadcast_to other out_size w)) d])"
proof -
  from linalg_cross_out_reaches_stub [OF run] obtain out_size d evs where
    inf: "infer_size (sizes input) (sizes other) = Inr out_size"
    and wr: "maybe_wrap_dim dimension (dim input) = Inr d"
    and st: "cross_stub tbl (device input)
             (resize_output (w\<lparr>log := log w @ evs\<rparr>) out_size)
             (fst (broadcast_to input out_size w)) (fst (broadcast_to other out_size w)) d = (Inr (), w')"
    by blast
  let ?a = "fst (broadcast_to input out_size w)"
  let ?b = "fst (broadcast_to other out_size w)"
  from st obtain k where k: "tbl (device input) = Some k"
    and o: "out_t w' = (out_t (resize_output w out_size))\<lparr>elems := k ?a ?b d\<rparr>"
    by (auto simp: cross_stub_def Let_def out_t_resize_output_log split: option.splits)
  from cross_stub_log [OF st]
  have "log w' = log w @ (evs @ (if sizes (out_t w) \<noteq> out_size \<and> numel (out_t w) \<noteq> 0
                                  then [DiscardWarning] else []))
                  @ [Dispatch (device input) ?a ?b d]"
    by (simp add: resize_output_log)
  with k o inf wr show ?thesis by blast
qed

lemma linalg_cross_out_unsupported:
  assumes run: "linalg_cross_out tbl input other dimension w = (Inl UnsupportedDevice, w')"
  shows "tbl (device input) = None \<and> (\<exists>a b d. last (log w') = Dispatch (device input) a b d)"
proof -
  from linalg_cross_out_reaches_stub [OF run] obtain out_size d evs where
    st: "cross_stub tbl (device input)
             (resize_output (w\<lparr>log := log w @ evs\<rparr>) out_size)
             (fst (broadcast_to input out_size w)) (fst (broadcast_to other out_size w)) d
           = (Inl UnsupportedDevice, w')"
    by blast
  from st have "tbl (device input) = None"
    by (auto simp: cross_stub_def Let_def split: option.splits)
  moreover from cross_stub_log [OF st] have "\<exists>a b d. last (log w') = Dispatch (device input) a b d"
    by simp
  ultimately show ?thesis by simp
qed

lemma linalg_cross_out_other_device_out:
  assumes ker: "\<forall>k a b d. tbl (device input) = Some k \<longrightarrow> k a (b\<lparr>device := dv\<rparr>) d = k a b d"
  shows "out_t (snd (linalg_cross_out tbl input (other\<lparr>device := dv\<rparr>) dimension w))
           = out_t (snd (linalg_cross_out tbl input other dimension w))"
proof (cases "infer_size (sizes input) (sizes other)")
  case (Inl e)
  then show ?thesis by (simp add: linalg_cross_out_incompatible)
next
  case (Inr out_size)
  then have inf': "infer_size (sizes input) (sizes (other\<lparr>device := dv\<rparr>)) = Inr out_size" by simp
  show ?thesis
  proof (cases "tbl (device input)")
    case None
    then show ?thesis
      by (simp add: linalg_cross_out_unfold [OF Inr] linalg_cross_out_unfold [OF inf']
          cross_stub_def Let_def out_t_resize_output_log split: sum.splits)
  next
    case (Some k)
    with ker have ign: "\<And>a b d. k a (b\<lparr>device := dv\<rparr>) d = k a b d" by simp
    from Some show ?thesis
      by (simp add: linalg_cross_out_unfold [OF Inr] linalg_cross_out_unfold [OF inf']
          cross_stub_def Let_def out_t_resize_output_log expand_device_update ign split: sum.splits)
  qed
qed

text \<open>
  Claim C10. The kernel is looked up under the device tag of the first input only. A
  successful call has run the kernel registered under that tag, on the two broadcast
  inputs and the axis wrapped against the first input, written its result into the
  prepared output, and logged that dispatch last; a call that fails for want of a kernel
  found none under that tag. The call is the same for any two tables that agree at that
  tag. The device tag of the second input decides neither success nor failure, and, when
  the kernel itself does not read that tag, it does not change the output either.
\<close>

theorem dispatch_keyed_on_first_input:
  "(linalg_cross_out tbl input other dimension w = (Inr (), w') \<longrightarrow>
      (\<exists>k out_size d. tbl (device input) = Some k \<and>
         infer_size (sizes input) (sizes other) = Inr out_size \<and>
         maybe_wrap_dim dimension (dim input) = Inr d \<and>
         out_t w' = (out_t (resize_output w out_size))
           \<lparr>elems := k (fst (broadcast_to input out_size w))
                         (fst (broadcast_to other out_size w)) d\<rparr> \<and>
         (\<exists>evs. log w' = log w @ evs @
            [Dispatch (device input) (fst (broadcast_to input out_size w))
               (fst (broadcast_to other out_size w)) d]))) \<and>
   (linalg_cross_out tbl input other dimension w = (Inl UnsupportedDevice, w') \<longrightarrow>
      tbl (device input) = None \<and>
      (\<exists>a b d. last (log w') = Dispatch (device input) a b d)) \<and>
   (tbl' (device input) = tbl (device input) \<longrightarrow>
      linalg_cross_out tbl' input other dimension w = linalg_cross_out tbl input other dimension w) \<and>
   fst (linalg_cross_out tbl input (other\<lparr>device := dv\<rparr>) dimension w)
     = fst (linalg_cross_out tbl input other dimension w) \<and>
   ((\<forall>k a b d. tbl (device input) = Some k \<longrightarrow> k a (b\<lparr>device := dv\<rparr>) d = k a b d) \<longrightarrow>
      out_t (snd (linalg_cross_out tbl input (other\<lparr>device := dv\<rparr>) dimension w))
        = out_t (snd (linalg_cross_out tbl input other dimension w))) \<and>
   (\<forall>dv' a b d. Dispatch dv' a b d \<in> set (log (snd (linalg_cross_out tbl input other dimension w)))
      \<longrightarrow> Dispatch dv' a b d \<in> set (log w) \<or> dv' = device input)"
proof (intro conjI impI allI)
  assume "linalg_cross_out tbl input other dimension w = (Inr (), w')"
  then show "\<exists>k out_size d. tbl (device input) = Some k \<and>
         infer_size (sizes input) (sizes other) = Inr out_size \<and>
         maybe_wrap_dim dimension (dim input) = Inr d \<and>
         out_t w' = (out_t (resize_output w out_size))
           \<lparr>elems := k (fst (broadcast_to input out_size w))
                         (fst (broadcast_to other out_size w)) d\<rparr> \<and>
         (\<exists>evs. log w' = log w @ evs @
            [Dispatch (device input) (fst (broadcast_to input out_size w))
               (fst (broadcast_to other out_size w)) d])"
    by (rule linalg_cross_out_success_kernel)
next
  assume u: "linalg_cross_out tbl input other dimension w = (Inl UnsupportedDevice, w')"
  from linalg_cross_out_unsupported [OF u] show "tbl (device input) = None" by simp
  from linalg_cross_out_unsupported [OF u]
  show "\<exists>a b d. last (log w') = Dispatch (device input) a b d" by simp
next
  assume "tbl' (device input) = tbl (device input)"
  then show "linalg_cross_out tbl' input other dimension w = linalg_cross_out tbl input other dimension w"
    by (rule linalg_cross_out_table)
next
  show "fst (linalg_cross_out tbl input (other\<lparr>device := dv\<rparr>) dimension w)
     = fst (linalg_cross_out tbl input other dimension w)"
    by (rule linalg_cross_out_other_device)
next
  assume "\<forall>k a b d. tbl (device input) = Some k \<longrightarrow> k a (b\<lparr>device := dv\<rparr>) d = k a b d"
  then show "out_t (snd (linalg_cross_out tbl input (other\<lparr>device := dv\<rparr>) dimension w))
        = out_t (snd (linalg_cross_out tbl input other dimension w))"
    by (rule linalg_cross_out_other_device_out)
next
  fix dv' a b d
  assume m: "Dispatch dv' a b d \<in> set (log (snd (linalg_cross_out tbl input other dimension w)))"
  obtain r w' where run: "linalg_cross_out tbl input other dimension w = (r, w')"
    by (cases "linalg_cross_out tbl input other dimension w")
  show "Dispatch dv' a b d \<in> set (log w) \<or> dv' = device input"
  proof (cases "infer_size (sizes input) (sizes other)")
    case (Inl e)
    from linalg_cross_out_incompatible [OF Inl] run m show ?thesis by simp
  next
    case (Inr out_size)
    from linalg_cross_out_log [OF Inr run] m run show ?thesis
      by (auto split: if_splits)
  qed
qed

lemma cross_kernel_ignores_device:
  "cross_kernel a (b\<lparr>device := dv\<rparr>) d = cross_kernel a b d"
  by (simp add: cross_kernel_def)

lemma run_cpu_only:
  "linalg_cross_out cpu_only vec3 mat33 0 used_out =
     (Inr (), \<lparr>out_t = \<lparr>sizes = [3, 3], device = CPU, elems = [0, 0, 0, 0, 0, 0, 0, 0, 0]\<rparr>,
              log = [Expand vec3 [3, 3], DiscardWarning,
                     Dispatch CPU (expand vec3 [3, 3]) mat33 0]\<rparr>)"
  by code_simp

lemma run_cpu_only_cuda_input:
  "linalg_cross_out cpu_only (vec3\<lparr>device := CUDA\<rparr>) mat33 0 used_out =
     (Inl UnsupportedDevice,
      \<lparr>out_t = \<lparr>sizes = [3, 3], device = CPU, elems = [0, 0, 0, 0, 0, 0, 0, 0, 0]\<rparr>,
       log = [Expand (vec3\<lparr>device := CUDA\<rparr>) [3, 3], DiscardWarning,
              Dispatch CUDA (expand (vec3\<lparr>device := CUDA\<rparr>) [3, 3]) mat33 0]\<rparr>)"
  by code_simp

theorem dispatch_keyed_on_first_input_witness:
  "linalg_cross_out cpu_only vec3 mat33 0 used_out =
     (Inr (), \<lparr>out_t = \<lparr>sizes = [3, 3], device = CPU, elems = [0, 0, 0, 0, 0, 0, 0, 0, 0]\<rparr>,
              log = [Expand vec3 [3, 3], DiscardWarning,
                     Dispatch CPU (expand vec3 [3, 3]) mat33 0]\<rparr>) \<and>
   cpu_only (device vec3) = Some cross_kernel \<and>
   linalg_cross_out cpu_only (vec3\<lparr>device := CUDA\<rparr>) mat33 0 used_out =
     (Inl UnsupportedDevice,
      \<lparr>out_t = \<lparr>sizes = [3, 3], device = CPU, elems = [0, 0, 0, 0, 0, 0, 0, 0, 0]\<rparr>,
       log = [Expand (vec3\<lparr>device := CUDA\<rparr>) [3, 3], DiscardWarning,
              Dispatch CUDA (expand (vec3\<lparr>device := CUDA\<rparr>) [3, 3]) mat33 0]\<rparr>) \<and>
   cpu_only (device (vec3\<lparr>device := CUDA\<rparr>)) = None \<and>
   cross_table (device vec3) = cpu_only (device vec3) \<and>
   linalg_cross_out cross_table vec3 mat33 0 used_out
     = linalg_cross_out cpu_only vec3 mat33 0 used_out \<and>
   (\<forall>a b d. cross_kernel a (b\<lparr>device := CUDA\<rparr>) d = (cross_kernel a b d :: int list)) \<and>
   fst (linalg_cross_out cpu_only vec3 (mat33\<lparr>device := CUDA\<rparr>) 0 used_out) = Inr () \<and>
   out_t (snd (linalg_cross_out cpu_only vec3 (mat33\<lparr>device := CUDA\<rparr>) 0 used_out))
     = \<lparr>sizes = [3, 3], device = CPU, elems = [0, 0, 0, 0, 0, 0, 0, 0, 0]\<rparr>"
proof -
  have t: "cross_table (device vec3) = cpu_only (device vec3)"
    by (simp add: cross_table_def cpu_only_def vec3_def)
  have s: "cpu_only (device vec3) = Some cross_kernel"
    by (simp add: cpu_only_def vec3_def)
  have n: "cpu_only (device (vec3\<lparr>device := CUDA\<rparr>)) = None"
    by (simp add: cpu_only_def)
  have ker: "\<forall>k a b d. cpu_only (device vec3) = Some k \<longrightarrow> k a (b\<lparr>device := CUDA\<rparr>) d = k a b d"
    by (simp add: s cross_kernel_ignores_device)
  from dispatch_keyed_on_first_input [of cpu_only vec3 mat33 0 used_out
      "\<lparr>out_t = \<lparr>sizes = [3, 3], device = CPU, elems = [0, 0, 0, 0, 0, 0, 0, 0, 0]\<rparr>,
        log = [Expand vec3 [3, 3], DiscardWarning, Dispatch CPU (expand vec3 [3, 3]) mat33 0]\<rparr>"
      cross_table CUDA]
    dispatch_keyed_on_first_input [of cpu_only "vec3\<lparr>device := CUDA\<rparr>" mat33 0 used_out
      "\<lparr>out_t = \<lparr>sizes = [3, 3], device = CPU, elems = [0, 0, 0, 0, 0, 0, 0, 0, 0]\<rparr>,
        log = [Expand (vec3\<lparr>device := CUDA\<rparr>) [3, 3], DiscardWarning,
               Dispatch CUDA (expand (vec3\<lparr>device := CUDA\<rparr>) [3, 3]) mat33 0]\<rparr>"
      cpu_only CUDA]
    t s n ker run_cpu_only run_cpu_only_cuda_input
  show ?thesis by (simp add: cross_kernel_ignores_device)
qed

subsection \<open>The rank the axis is wrapped against\<close>

text \<open>
  Claim C1, on the code. \<open>linalg_cross_out\<close> wraps the axis with
  \<open>maybe_wrap_dim(dimension, input.dim())\<close>, the rank of the first input as it was
  given, and then reads \<open>input_broadcasted.size(dim)\<close>. For a first input of shape
  \<open>(3)\<close>, a second of shape \<open>(2, 3)\<close> and axis \<open>-1\<close> the broadcast shape is \<open>(2, 3)\<close>,
  whose last extent is 3; wrapped against the broadcast rank the axis would be 1, but the
  code wraps it to 0, reads the extent 2 and fails with \<open>AxisExtentMismatch\<close>.
\<close>

theorem axis_wrapped_against_input_rank:
  "infer_size (sizes vec3) (sizes mat23) = Inr [2, 3] \<and>
   maybe_wrap_dim (- 1) (int (length [2, 3 :: int])) = Inr 1 \<and>
   [2, 3 :: int] ! nat 1 = 3 \<and>
   maybe_wrap_dim (- 1) (dim vec3) = Inr 0 \<and>
   [2, 3 :: int] ! nat 0 = 2 \<and>
   linalg_cross_out cross_table vec3 mat23 (- 1) used_out =
     (Inl AxisExtentMismatch, used_out\<lparr>log := [Expand vec3 [2, 3]]\<rparr>)"
proof -
  have "infer_size (sizes vec3) (sizes mat23) = Inr [2, 3]"
    by (simp add: vec3_def mat23_def infer_size_vec3_mat23)
  moreover have "maybe_wrap_dim (- 1) (int (length [2, 3 :: int])) = Inr 1"
    by (simp add: maybe_wrap_dim_def)
  moreover have "[2, 3 :: int] ! nat 1 = 3" "[2, 3 :: int] ! nat 0 = 2"
    by simp_all
  moreover have "maybe_wrap_dim (- 1) (dim vec3) = Inr 0"
    by (simp add: maybe_wrap_dim_def dim_def vec3_def)
  ultimately show ?thesis
    using run_vec3_mat23 by blast
qed

subsection \<open>The kernel equations\<close>

lemma cross_at_anticommute: "cross_at xs ys stride p = - cross_at ys xs stride p"
  by (simp add: cross_at_def Let_def algebra_simps)

lemma cross_kernel_anticommute:
  "sizes a = sizes b \<Longrightarrow> cross_kernel a b d = map uminus (cross_kernel b a d)"
  using cross_at_anticommute [of "elems a" "elems b"]
  by (simp add: cross_kernel_def Let_def)

lemma infer_aligned_commute: "infer_aligned as bs = infer_aligned bs as"
proof (induction as arbitrary: bs)
  case Nil
  show ?case by (cases bs) simp_all
next
  case (Cons a as)
  show ?case
  proof (cases bs)
    case Nil
    then show ?thesis by simp
  next
    case (Cons b bs')
    with Cons.IH [of bs'] show ?thesis by (auto simp: max.commute split: sum.splits)
  qed
qed

lemma infer_size_commute: "infer_size a b = infer_size b a"
  by (simp add: infer_size_def Let_def max.commute infer_aligned_commute)

subsection \<open>The two orders of the operands\<close>


lemma elems_cross_stub:
  "cross_stub cross_table dev w a b d = (r, w') \<Longrightarrow>
     r = Inr () \<and> elems (out_t w') = cross_kernel a b d \<and> sizes (out_t w') = sizes (out_t w)"
  by (auto simp: cross_stub_def cross_table_def Let_def)

lemma linalg_cross_out_swap:
  assumes rank: "dim a = dim b"
    and run: "linalg_cross_out cross_table a b d w = (Inr (), w1)"
  shows "\<exists>w2. linalg_cross_out cross_table b a d v = (Inr (), w2) \<and>
           sizes (out_t w2) = sizes (out_t w1) \<and>
           elems (out_t w1) = map uminus (elems (out_t w2))"
proof -
  from run obtain out_size where inf: "infer_size (sizes a) (sizes b) = Inr out_size"
    by (cases "infer_size (sizes a) (sizes b)") (auto simp: linalg_cross_out_incompatible)
  then have inf': "infer_size (sizes b) (sizes a) = Inr out_size"
    by (simp add: infer_size_commute)
  let ?ia = "if sizes a \<noteq> out_size then expand a out_size else a"
  let ?ib = "if sizes b \<noteq> out_size then expand b out_size else b"
  have sz: "sizes ?ia = sizes ?ib" by (simp add: sizes_expand)
  from linalg_cross_out_log [OF inf run]
  obtain k where k: "maybe_wrap_dim d (dim a) = Inr k" "out_size ! nat k = 3" by auto
  let ?wa = "resize_output (w\<lparr>log := log w @ (if sizes a \<noteq> out_size then [Expand a out_size] else [])
                                @ (if sizes b \<noteq> out_size then [Expand b out_size] else [])\<rparr>) out_size"
  let ?wb = "resize_output (v\<lparr>log := log v @ (if sizes b \<noteq> out_size then [Expand b out_size] else [])
                                @ (if sizes a \<noteq> out_size then [Expand a out_size] else [])\<rparr>) out_size"
  from run k have ra: "cross_stub cross_table (device a) ?wa ?ia ?ib k = (Inr (), w1)"
    by (simp add: linalg_cross_out_unfold [OF inf])
  obtain r w2 where rb: "cross_stub cross_table (device b) ?wb ?ib ?ia k = (r, w2)"
    by (cases "cross_stub cross_table (device b) ?wb ?ib ?ia k")
  from k rank rb have "linalg_cross_out cross_table b a d v = (r, w2)"
    by (simp add: linalg_cross_out_unfold [OF inf'])
  moreover from elems_cross_stub [OF ra] elems_cross_stub [OF rb] cross_kernel_anticommute [OF sz, of k]
  have "r = Inr () \<and> sizes (out_t w2) = sizes (out_t w1) \<and>
        elems (out_t w1) = map uminus (elems (out_t w2))"
    by (simp add: resize_output_sizes)
  ultimately show ?thesis by blast
qed

text \<open>
  Between inputs of the same rank the two orders of \<open>linalg_cross\<close> wrap the axis alike,
  and the results are negations of each other, element by element.
\<close>

lemma linalg_cross_anticommute_same_rank:
  assumes rank: "dim a = dim b"
    and run: "linalg_cross cross_table a b d lg = (Inr ra, la)"
  shows "\<exists>rb lb. linalg_cross cross_table b a d lg = (Inr rb, lb) \<and>
           sizes rb = sizes ra \<and> elems ra = map uminus (elems rb)"
proof -
  from run obtain w1 where
    r1: "linalg_cross_out cross_table a b d \<lparr>out_t = empty0 a, log = lg\<rparr> = (Inr (), w1)"
    and ra: "ra = out_t w1"
    by (auto simp: linalg_cross_def split: prod.splits sum.splits)
  from linalg_cross_out_swap [OF rank r1, of "\<lparr>out_t = empty0 b, log = lg\<rparr>"]
  obtain w2 where
    r2: "linalg_cross_out cross_table b a d \<lparr>out_t = empty0 b, log = lg\<rparr> = (Inr (), w2)"
    and eq: "sizes (out_t w2) = sizes (out_t w1)" "elems (out_t w1) = map uminus (elems (out_t w2))"
    by blast
  from r2 have "linalg_cross cross_table b a d lg = (Inr (out_t w2), log w2)"
    by (simp add: linalg_cross_def)
  with eq ra show ?thesis by blast
qed

text \<open>
  Claim C8, on the code. For a first input of shape \<open>(3)\<close>, a second of shape \<open>(3, 3)\<close>
  and axis \<open>-1\<close>, both orders of \<open>linalg_cross\<close> succeed with an output of shape
  \<open>(3, 3)\<close>: with the vector first the axis is wrapped against rank 1 and the kernel
  runs along dimension 0, with the matrix first it is wrapped against rank 2 and the
  kernel runs along dimension 1. The two results are not negations of each other.
\<close>

theorem mixed_rank_cross_not_negated:
  "fst (linalg_cross cross_table vec3 mat33 (- 1) []) =
     Inr \<lparr>sizes = [3, 3], device = CPU, elems = [0, 0, 0, 0, 0, 0, 0, 0, 0]\<rparr> \<and>
   fst (linalg_cross cross_table mat33 vec3 (- 1) []) =
     Inr \<lparr>sizes = [3, 3], device = CPU, elems = [0, 0, - 1, 0, 0, 0, 0, 0, 0]\<rparr> \<and>
   [0, 0, 0, 0, 0, 0, 0, 0, 0] \<noteq> map uminus [0, 0, - 1, 0, 0, 0, 0, 0, 0 :: int] \<and>
   snd (linalg_cross cross_table vec3 mat33 (- 1) []) =
     [Expand vec3 [3, 3], Dispatch CPU (expand vec3 [3, 3]) mat33 0] \<and>
   snd (linalg_cross cross_table mat33 vec3 (- 1) []) =
     [Expand vec3 [3, 3], Dispatch CPU mat33 (expand vec3 [3, 3]) 1]"
  by code_simp

end
